theory Spec2Isabelle
  imports Complex_Main "HOL-Library.List_Lexorder" "HOL-Library.Multiset"
begin

section \<open>The taxi-fare notebook: data model\<close>

text \<open>
  The notebook \<^verbatim>\<open>clean_tutorial_nyc_taxi_parquet.ipynb\<close> (and the shorter notebook
  beside it, which has the same grouping cells) is a sequence of cells over Arkouda arrays. Each cell is embedded as a function of the
  notebook variables it reads, named after the variable it binds. The array library
  itself is not part of the repository; its operations are modelled below from the
  interface of section 6 of the specification, and every such definition says so.

  \<^verbatim>\<open>float64\<close> columns are modelled as exact reals: rounding, infinities and NaN are
  outside that model. The variance cell is embedded a second time over float64 values
  with overflow, infinities and NaN, for the singleton groups, where they decide the
  result. \<^verbatim>\<open>int64\<close> columns are modelled as unbounded integers: the notebook does no
  arithmetic on them.
\<close>

text \<open>
  The exceptions a cell can raise: Python's \<^verbatim>\<open>KeyError\<close>, \<^verbatim>\<open>TypeError\<close> and
  \<^verbatim>\<open>ValueError\<close>, and the \<^verbatim>\<open>EmptySelectionError\<close> of section 7 of the specification.
\<close>

datatype error = KeyError | TypeError | ValueError | EmptySelectionError

text \<open>Sequencing of calls that can raise: the first exception ends the cell.\<close>

definition bindE :: "error + 'a \<Rightarrow> ('a \<Rightarrow> error + 'b) \<Rightarrow> error + 'b" where
  "bindE m f = (case m of Inl e \<Rightarrow> Inl e | Inr x \<Rightarrow> f x)"

text \<open>A column of the table: an array of one of the dtypes the trip data has.\<close>

datatype pdarray = Int64 "int list" | Float64 "real list" | Strings "string list"

fun size_pd :: "pdarray \<Rightarrow> nat" where
  "size_pd (Int64 xs) = length xs"
| "size_pd (Float64 xs) = length xs"
| "size_pd (Strings xs) = length xs"

text \<open>
  Modelled from the spec: boolean-mask row filtering \<^verbatim>\<open>v[mask]\<close> of the array library
  (section 6, "boolean-mask row filtering"; section 4.4, "preserving relative order").
  The entries of \<open>v\<close> at the positions where the mask is true, in row order; a mask of
  another size raises \<^verbatim>\<open>ValueError\<close>.
\<close>

definition compress :: "'a list \<Rightarrow> bool list \<Rightarrow> 'a list" where
  "compress xs msk = map fst (filter snd (zip xs msk))"

fun getitem_mask :: "pdarray \<Rightarrow> bool list \<Rightarrow> error + pdarray" where
  "getitem_mask (Int64 xs) msk =
     (if length msk = length xs then Inr (Int64 (compress xs msk)) else Inl ValueError)"
| "getitem_mask (Float64 xs) msk =
     (if length msk = length xs then Inr (Float64 (compress xs msk)) else Inl ValueError)"
| "getitem_mask (Strings xs) msk =
     (if length msk = length xs then Inr (Strings (compress xs msk)) else Inl ValueError)"

text \<open>
  Modelled from the spec: the comparison of a column with a scalar (section 6,
  "elementwise arithmetic over Column (..., comparisons) producing a new Column of equal
  length"). A column of strings has no order against a number: \<^verbatim>\<open>TypeError\<close>.
\<close>

fun ge_scalar :: "pdarray \<Rightarrow> real \<Rightarrow> error + bool list" where
  "ge_scalar (Int64 xs) c = Inr (map (\<lambda>x. c \<le> real_of_int x) xs)"
| "ge_scalar (Float64 xs) c = Inr (map (\<lambda>x. c \<le> x) xs)"
| "ge_scalar (Strings xs) c = Inl TypeError"

fun gt_scalar :: "pdarray \<Rightarrow> real \<Rightarrow> error + bool list" where
  "gt_scalar (Int64 xs) c = Inr (map (\<lambda>x. c < real_of_int x) xs)"
| "gt_scalar (Float64 xs) c = Inr (map (\<lambda>x. c < x) xs)"
| "gt_scalar (Strings xs) c = Inl TypeError"

text \<open>
  The table \<^verbatim>\<open>data\<close>: a dictionary from column names to columns, in insertion order
  (\<^verbatim>\<open>data.items()\<close> is the list itself).
\<close>

type_synonym items = "(string \<times> pdarray) list"

text \<open>
  Modelled from the spec: the table constructors \<^verbatim>\<open>ak.DataFrame\<close> and \<^verbatim>\<open>pd.DataFrame\<close>
  of the libraries (section 3, "Row table: an ordered collection of rows, each with a
  fixed schema"): all columns have one length, and columns of different lengths raise
  \<^verbatim>\<open>ValueError\<close>.
\<close>

fun DataFrame :: "items \<Rightarrow> error + items" where
  "DataFrame [] = Inr []"
| "DataFrame ((k, v) # kvs) =
     (if list_all (\<lambda>(k', v'). size_pd v' = size_pd v) kvs
      then Inr ((k, v) # kvs) else Inl ValueError)"

text \<open>The row count of a table: the length of its first column, 0 without columns.\<close>

fun nrows :: "items \<Rightarrow> nat" where
  "nrows [] = 0"
| "nrows ((k, v) # kvs) = size_pd v"

text \<open>
  Modelled from the spec: column projection \<^verbatim>\<open>data[name]\<close> (section 6,
  \<^verbatim>\<open>table[column_name] -> Column\<close>); a name the table does not have raises
  \<^verbatim>\<open>KeyError\<close>.
\<close>

definition getitem_col :: "items \<Rightarrow> string \<Rightarrow> error + pdarray" where
  "getitem_col data k = (case map_of data k of None \<Rightarrow> Inl KeyError | Some v \<Rightarrow> Inr v)"

text \<open>
  The dictionary comprehension \<^verbatim>\<open>{k: f(v) for k, v in data.items()}\<close>: the items in
  order, the first exception raised by \<open>f\<close> ends it.
\<close>

fun dict_comp :: "(pdarray \<Rightarrow> error + pdarray) \<Rightarrow> items \<Rightarrow> error + items" where
  "dict_comp f [] = Inr []"
| "dict_comp f ((k, v) # kvs) =
     (case f v of
        Inl e \<Rightarrow> Inl e
      | Inr v' \<Rightarrow> (case dict_comp f kvs of Inl e \<Rightarrow> Inl e | Inr r \<Rightarrow> Inr ((k, v') # r)))"

subsection \<open>Logical indexing: the two filter cells\<close>

text \<open>
  \<^verbatim>\<open>non_neg = data['fare_amount'] >= 0\<close>
  \<^verbatim>\<open>data = ak.DataFrame({k:v[non_neg] for k, v in data.items()})\<close>
\<close>

definition non_neg :: "items \<Rightarrow> error + bool list" where
  "non_neg data = bindE (getitem_col data ''fare_amount'') (\<lambda>c. ge_scalar c 0)"

definition non_neg_data :: "items \<Rightarrow> error + items" where
  "non_neg_data data =
     bindE (non_neg data) (\<lambda>m. bindE (dict_comp (\<lambda>v. getitem_mask v m) data) DataFrame)"

text \<open>
  \<^verbatim>\<open>exorbitant = (data['fare_z'] > 2)\<close>
  \<^verbatim>\<open>exdf = pd.DataFrame({k: v[exorbitant].to_ndarray() for k, v in data.items()})\<close>
  The transfer \<^verbatim>\<open>to_ndarray\<close> changes where the array lives, not its entries.
\<close>

definition exorbitant :: "items \<Rightarrow> error + bool list" where
  "exorbitant data = bindE (getitem_col data ''fare_z'') (\<lambda>c. gt_scalar c 2)"

definition exdf :: "items \<Rightarrow> error + items" where
  "exdf data =
     bindE (exorbitant data) (\<lambda>m. bindE (dict_comp (\<lambda>v. getitem_mask v m) data) DataFrame)"

text \<open>
  For stating what a filter keeps: the row numbers a mask selects, in increasing order,
  and the gather of a column at a list of row numbers.
\<close>

definition kept :: "bool list \<Rightarrow> nat list" where
  "kept msk = filter (\<lambda>i. msk ! i) [0..<length msk]"

fun gather :: "pdarray \<Rightarrow> nat list \<Rightarrow> pdarray" where
  "gather (Int64 xs) idx = Int64 (map (\<lambda>i. xs ! i) idx)"
| "gather (Float64 xs) idx = Float64 (map (\<lambda>i. xs ! i) idx)"
| "gather (Strings xs) idx = Strings (map (\<lambda>i. xs ! i) idx)"

text \<open>
  Two small tables for the filter cells: one with a negative fare and a ride whose z-score
  exceeds 2, and one where no z-score does.
\<close>

definition three_rides :: items where
  "three_rides =
     [(''PULocationID'', Int64 [1, 2, 1]),
      (''fare_amount'', Float64 [10, - 3, 4]),
      (''fare_z'', Float64 [3, 0, 1]),
      (''PUZone'', Strings [''a'', ''b'', ''c''])]"

definition calm_rides :: items where
  "calm_rides =
     [(''fare_amount'', Float64 [10, 4]),
      (''fare_z'', Float64 [1, 0]),
      (''PUZone'', Strings [''a'', ''c''])]"

section \<open>Grouping, aggregation and broadcast\<close>

text \<open>
  Modelled from the spec: \<^verbatim>\<open>ak.GroupBy\<close> of the array library (section 4.1: "assigns each
  row to exactly one group, keyed by the tuple of values from those columns for that
  row"; section 6, \<^verbatim>\<open>group_by(columns) -> Grouping\<close>). The grouping holds the key tuple
  of every row, in row order, and the unique key tuples, one per group, in sorted order
  (the spec asks for a deterministic order; the library's is the sorted one). No key
  column, or key columns of different lengths, raise \<^verbatim>\<open>ValueError\<close>.
\<close>

record 'a grouping =
  row_keys :: "'a list list"
  unique_keys :: "'a list list"

fun GroupBy :: "('a::linorder) list list \<Rightarrow> error + 'a grouping" where
  "GroupBy [] = Inl ValueError"
| "GroupBy (c # cs) =
     (if list_all (\<lambda>d. length d = length c) cs
      then (let ks = map (\<lambda>i. map (\<lambda>d. d ! i) (c # cs)) [0..<length c]
            in Inr \<lparr>row_keys = ks, unique_keys = sort (remdups ks)\<rparr>)
      else Inl ValueError)"

text \<open>
  Modelled from the spec: the group of a key (glossary, "Group: a subset of rows sharing an
  identical key-column tuple"), as the row numbers that hold the key \<open>k\<close>, in increasing
  order.
\<close>

definition group_rows :: "'k list \<Rightarrow> 'k \<Rightarrow> nat list" where
  "group_rows ks k = filter (\<lambda>i. ks ! i = k) [0..<length ks]"

text \<open>
  Modelled from the spec: the number of a key's group, its position among the unique keys
  (section 3, "Group aggregate record: for each unique group key"). Per-group values are
  lists in this order.
\<close>

definition group_index :: "'k list \<Rightarrow> 'k \<Rightarrow> nat" where
  "group_index uks k = length (takeWhile (\<lambda>u. u \<noteq> k) uks)"

text \<open>
  Modelled from the spec: the per-group reductions of the array library (section 4.2:
  "compute per-group: count, sum, and derived mean = sum/count"; section 6,
  \<^verbatim>\<open>Grouping.aggregate(column, op) -> (unique_keys, per_group_value)\<close>). A column whose
  length is not the grouping's row count raises \<^verbatim>\<open>ValueError\<close>.
\<close>

definition gb_size :: "'a grouping \<Rightarrow> 'a list list \<times> nat list" where
  "gb_size g =
     (unique_keys g, map (\<lambda>k. length (group_rows (row_keys g) k)) (unique_keys g))"

definition gb_sum :: "'a grouping \<Rightarrow> real list \<Rightarrow> error + 'a list list \<times> real list" where
  "gb_sum g vals =
     (if length vals = length (row_keys g)
      then Inr (unique_keys g,
                map (\<lambda>k. sum_list (map (\<lambda>i. vals ! i) (group_rows (row_keys g) k)))
                  (unique_keys g))
      else Inl ValueError)"

definition gb_mean :: "'a grouping \<Rightarrow> real list \<Rightarrow> error + 'a list list \<times> real list" where
  "gb_mean g vals =
     (if length vals = length (row_keys g)
      then Inr (unique_keys g,
                map (\<lambda>k. sum_list (map (\<lambda>i. vals ! i) (group_rows (row_keys g) k))
                            / real (length (group_rows (row_keys g) k)))
                  (unique_keys g))
      else Inl ValueError)"

text \<open>
  Modelled from the spec: \<^verbatim>\<open>Grouping.broadcast(per_group_value) -> Column\<close> of the array
  library (section 3, "Broadcast mapping: a function from row index to its group's
  aggregate value"; section 6, "length = original row count, aligned to the grouping's
  source row order"), as called with \<^verbatim>\<open>permute=True\<close>. Anything but one value per group
  raises \<^verbatim>\<open>ValueError\<close>.
\<close>

definition broadcast :: "'a grouping \<Rightarrow> 'v list \<Rightarrow> error + 'v list" where
  "broadcast g vals =
     (if length vals = length (unique_keys g)
      then Inr (map (\<lambda>k. vals ! group_index (unique_keys g) k) (row_keys g))
      else Inl ValueError)"

text \<open>
  Modelled from the spec: elementwise arithmetic of two columns (section 6, "elementwise
  arithmetic over Column producing a new Column of equal length"); columns of different
  lengths raise \<^verbatim>\<open>ValueError\<close>.
\<close>

definition binop :: "('a \<Rightarrow> 'b \<Rightarrow> 'c) \<Rightarrow> 'a list \<Rightarrow> 'b list \<Rightarrow> error + 'c list" where
  "binop f xs ys =
     (if length xs = length ys then Inr (map (\<lambda>(x, y). f x y) (zip xs ys)) else Inl ValueError)"

text \<open>
  Modelled from the spec: \<^verbatim>\<open>Column.argmax() -> int\<close> of the array library (section 4.4:
  "the index of the single row with the maximum z-score, with a well-defined tie-break
  (first occurrence in row order)"; section 7, \<^verbatim>\<open>EmptySelectionError\<close> for the argmax of
  an empty column). A scan that keeps the best row so far and replaces it only by a
  strictly larger value.
\<close>

fun argmax_scan :: "real list \<Rightarrow> nat \<Rightarrow> nat \<Rightarrow> real \<Rightarrow> nat" where
  "argmax_scan [] i best bv = best"
| "argmax_scan (x # xs) i best bv =
     (if bv < x then argmax_scan xs (Suc i) i x else argmax_scan xs (Suc i) best bv)"

fun argmax :: "real list \<Rightarrow> error + nat" where
  "argmax [] = Inl EmptySelectionError"
| "argmax (x # xs) = Inr (argmax_scan xs 1 0 x)"

subsection \<open>The cells of the anomalous-fare computation\<close>

text \<open>\<^verbatim>\<open>byloc = ak.GroupBy([data['PULocationID'], data['DOLocationID']])\<close>\<close>

definition byloc :: "int list \<Rightarrow> int list \<Rightarrow> error + int grouping" where
  "byloc PULocationID DOLocationID = GroupBy [PULocationID, DOLocationID]"

text \<open>\<^verbatim>\<open>(u, v), w = byloc.size()\<close>\<close>

definition w :: "int grouping \<Rightarrow> nat list" where
  "w g = snd (gb_size g)"

text \<open>\<^verbatim>\<open>_, mf = byloc.mean(data['fare_amount'])\<close>\<close>

definition mf :: "int grouping \<Rightarrow> real list \<Rightarrow> error + real list" where
  "mf g fare_amount = bindE (gb_mean g fare_amount) (\<lambda>r. Inr (snd r))"

text \<open>\<^verbatim>\<open>sf = (byloc.sum(data['fare_amount']**2)[1] / w) - mf**2\<close>\<close>

definition sf :: "int grouping \<Rightarrow> real list \<Rightarrow> error + real list" where
  "sf g fare_amount =
     bindE (gb_sum g (map (\<lambda>x. x ^ 2) fare_amount)) (\<lambda>r.
     bindE (binop (\<lambda>s n. s / real n) (snd r) (w g)) (\<lambda>q.
     bindE (mf g fare_amount) (\<lambda>m.
     binop (\<lambda>a b. a - b) q (map (\<lambda>x. x ^ 2) m))))"

text \<open>
  \<^verbatim>\<open>data['fare_mean'] = byloc.broadcast(mf, permute=True)\<close>
  \<^verbatim>\<open>data['fare_std'] = byloc.broadcast(sf, permute=True)\<close>
\<close>

definition fare_mean :: "int grouping \<Rightarrow> real list \<Rightarrow> error + real list" where
  "fare_mean g fare_amount = bindE (mf g fare_amount) (broadcast g)"

definition fare_std :: "int grouping \<Rightarrow> real list \<Rightarrow> error + real list" where
  "fare_std g fare_amount = bindE (sf g fare_amount) (broadcast g)"

text \<open>
  \<^verbatim>\<open>data['fare_z'] = (data['fare_amount'] - data['fare_mean']) / (data['fare_std'] + 1)\<close>
\<close>

definition fare_z :: "int grouping \<Rightarrow> real list \<Rightarrow> error + real list" where
  "fare_z g fare_amount =
     bindE (fare_mean g fare_amount) (\<lambda>m.
     bindE (fare_std g fare_amount) (\<lambda>s.
     bindE (binop (\<lambda>a b. a - b) fare_amount m) (\<lambda>d.
     binop (\<lambda>a b. a / b) d (map (\<lambda>x. x + 1) s))))"

text \<open>\<^verbatim>\<open>worst = data['fare_z'].argmax()\<close>\<close>

definition worst :: "int grouping \<Rightarrow> real list \<Rightarrow> error + nat" where
  "worst g fare_amount = bindE (fare_z g fare_amount) argmax"

text \<open>
  The whole computation from the three columns it reads: group by the location pair,
  then the cells above.
\<close>

definition anomalous_fares ::
  "int list \<Rightarrow> int list \<Rightarrow> real list \<Rightarrow> error + real list \<times> real list \<times> real list"
where
  "anomalous_fares PULocationID DOLocationID fare_amount =
     bindE (byloc PULocationID DOLocationID) (\<lambda>g.
     bindE (fare_mean g fare_amount) (\<lambda>m.
     bindE (fare_std g fare_amount) (\<lambda>s.
     bindE (fare_z g fare_amount) (\<lambda>z. Inr (m, s, z)))))"

text \<open>
  The standard deviation as the specification words it (section 4.3):
  \<^verbatim>\<open>variance_per_group = E[x^2] - (E[x])^2\<close> and
  \<^verbatim>\<open>std_per_group = sqrt(max(variance_per_group, 0))\<close>, over the fares of one group.
\<close>

definition mean_of :: "real list \<Rightarrow> real" where
  "mean_of xs = sum_list xs / real (length xs)"

definition variance_per_group :: "real list \<Rightarrow> real" where
  "variance_per_group xs = mean_of (map (\<lambda>x. x ^ 2) xs) - (mean_of xs) ^ 2"

definition std_per_group :: "real list \<Rightarrow> real" where
  "std_per_group xs = sqrt (max (variance_per_group xs) 0)"

text \<open>The values of a column over the rows of the group with key \<open>k\<close>.\<close>

definition group_fares :: "'a grouping \<Rightarrow> real list \<Rightarrow> 'a list \<Rightarrow> real list" where
  "group_fares g vals k = map (\<lambda>i. vals ! i) (group_rows (row_keys g) k)"

text \<open>
  The group of a row found by hand, without the grouping: the rows with the pickup and
  the dropoff location of row \<open>i\<close>, and the fares of those rows.
\<close>

definition rows_like :: "int list \<Rightarrow> int list \<Rightarrow> nat \<Rightarrow> nat list" where
  "rows_like PULocationID DOLocationID i =
     filter (\<lambda>j. PULocationID ! j = PULocationID ! i \<and> DOLocationID ! j = DOLocationID ! i)
       [0..<length PULocationID]"

definition fares_like :: "int list \<Rightarrow> int list \<Rightarrow> real list \<Rightarrow> nat \<Rightarrow> real list" where
  "fares_like PULocationID DOLocationID fare_amount i =
     map (\<lambda>j. fare_amount ! j) (rows_like PULocationID DOLocationID i)"

text \<open>
  The synthetic two-group table of the specification's testable properties (section 8):
  group A holds the fares 10, 10, 10 and group B the fares 0 and 20. The rows of the two
  groups alternate, so that the broadcast has to follow the row order.
\<close>

definition two_group_PU :: "int list" where
  "two_group_PU = [1, 2, 1, 2, 1]"

definition two_group_DO :: "int list" where
  "two_group_DO = [5, 5, 5, 5, 5]"

definition two_group_fare :: "real list" where
  "two_group_fare = [10, 0, 10, 20, 10]"

definition two_group_byloc :: "int grouping" where
  "two_group_byloc =
     \<lparr>row_keys = [[1, 5], [2, 5], [1, 5], [2, 5], [1, 5]], unique_keys = [[1, 5], [2, 5]]\<rparr>"

subsection \<open>The variance cell over float64 values\<close>

text \<open>
  Where a claim turns on what float64 arithmetic does outside the reals (overflow,
  infinities, NaN), the cells that compute \<open>sf\<close> are embedded a second time over float64
  values. A value is a finite number, an infinity or NaN; the sign of zero is not
  modelled. The rounding of a finite result is a parameter \<open>rnd\<close>: nothing below depends
  on which representable neighbour a result is rounded to.
\<close>

datatype f64 = Fin real | PInf | NInf | NaN

text \<open>
  Round to nearest overflows exactly when the magnitude of the exact result reaches the
  midpoint between the largest finite float64, \<open>2^1024 - 2^971\<close>, and \<open>2^1024\<close>.
\<close>

definition overflow_at :: real where
  "overflow_at = 2 ^ 1024 - 2 ^ 970"

definition finish :: "(real \<Rightarrow> real) \<Rightarrow> real \<Rightarrow> f64" where
  "finish rnd r =
     (if overflow_at \<le> r then PInf else if r \<le> - overflow_at then NInf else Fin (rnd r))"

text \<open>
  What the theorems ask of a rounding: it fixes 0 and 1, it fixes what it returns, and it
  keeps a result below the overflow threshold there. Rounding to nearest has all four.
\<close>

definition rounding :: "(real \<Rightarrow> real) \<Rightarrow> bool" where
  "rounding rnd \<longleftrightarrow>
     rnd 0 = 0 \<and> rnd 1 = 1 \<and> (\<forall>r. rnd (rnd r) = rnd r)
     \<and> (\<forall>r. \<bar>r\<bar> < overflow_at \<longrightarrow> \<bar>rnd r\<bar> < overflow_at)"

fun fneg :: "f64 \<Rightarrow> f64" where
  "fneg (Fin x) = Fin (- x)"
| "fneg PInf = NInf"
| "fneg NInf = PInf"
| "fneg NaN = NaN"

fun fadd :: "(real \<Rightarrow> real) \<Rightarrow> f64 \<Rightarrow> f64 \<Rightarrow> f64" where
  "fadd rnd (Fin x) (Fin y) = finish rnd (x + y)"
| "fadd rnd NaN b = NaN"
| "fadd rnd a NaN = NaN"
| "fadd rnd PInf NInf = NaN"
| "fadd rnd NInf PInf = NaN"
| "fadd rnd PInf b = PInf"
| "fadd rnd a PInf = PInf"
| "fadd rnd NInf b = NInf"
| "fadd rnd a NInf = NInf"

definition fsub :: "(real \<Rightarrow> real) \<Rightarrow> f64 \<Rightarrow> f64 \<Rightarrow> f64" where
  "fsub rnd a b = fadd rnd a (fneg b)"

text \<open>\<^verbatim>\<open>x ** 2\<close>\<close>

fun fsq :: "(real \<Rightarrow> real) \<Rightarrow> f64 \<Rightarrow> f64" where
  "fsq rnd (Fin x) = finish rnd (x * x)"
| "fsq rnd PInf = PInf"
| "fsq rnd NInf = PInf"
| "fsq rnd NaN = NaN"

text \<open>
  The division of a float64 by an int64 count: the count is converted first, and a
  division by zero gives an infinity, or NaN for \<open>0 / 0\<close>.
\<close>

fun fdiv_count :: "(real \<Rightarrow> real) \<Rightarrow> f64 \<Rightarrow> nat \<Rightarrow> f64" where
  "fdiv_count rnd (Fin x) n =
     (if rnd (real n) = 0
      then (if x = 0 then NaN else if 0 < x then PInf else NInf)
      else finish rnd (x / rnd (real n)))"
| "fdiv_count rnd PInf n = PInf"
| "fdiv_count rnd NInf n = NInf"
| "fdiv_count rnd NaN n = NaN"

text \<open>
  Modelled from the spec: the per-group sum and mean of the array library over float64
  values (section 4.2, "count, sum, and derived mean = sum/count"): the sum adds the
  values of the group, in row order, to 0.
\<close>

definition fsum :: "(real \<Rightarrow> real) \<Rightarrow> f64 list \<Rightarrow> f64" where
  "fsum rnd xs = foldl (fadd rnd) (Fin 0) xs"

definition gb_sum64 ::
  "(real \<Rightarrow> real) \<Rightarrow> 'a grouping \<Rightarrow> f64 list \<Rightarrow> error + 'a list list \<times> f64 list"
where
  "gb_sum64 rnd g vals =
     (if length vals = length (row_keys g)
      then Inr (unique_keys g,
                map (\<lambda>k. fsum rnd (map (\<lambda>i. vals ! i) (group_rows (row_keys g) k)))
                  (unique_keys g))
      else Inl ValueError)"

definition gb_mean64 ::
  "(real \<Rightarrow> real) \<Rightarrow> 'a grouping \<Rightarrow> f64 list \<Rightarrow> error + 'a list list \<times> f64 list"
where
  "gb_mean64 rnd g vals =
     (if length vals = length (row_keys g)
      then Inr (unique_keys g,
                map (\<lambda>k. fdiv_count rnd
                            (fsum rnd (map (\<lambda>i. vals ! i) (group_rows (row_keys g) k)))
                            (length (group_rows (row_keys g) k)))
                  (unique_keys g))
      else Inl ValueError)"

text \<open>
  \<^verbatim>\<open>_, mf = byloc.mean(data['fare_amount'])\<close>
  \<^verbatim>\<open>sf = (byloc.sum(data['fare_amount']**2)[1] / w) - mf**2\<close>
  \<^verbatim>\<open>data['fare_std'] = byloc.broadcast(sf, permute=True)\<close>
\<close>

definition mf64 :: "(real \<Rightarrow> real) \<Rightarrow> int grouping \<Rightarrow> f64 list \<Rightarrow> error + f64 list" where
  "mf64 rnd g fare_amount = bindE (gb_mean64 rnd g fare_amount) (\<lambda>r. Inr (snd r))"

definition sf64 :: "(real \<Rightarrow> real) \<Rightarrow> int grouping \<Rightarrow> f64 list \<Rightarrow> error + f64 list" where
  "sf64 rnd g fare_amount =
     bindE (gb_sum64 rnd g (map (fsq rnd) fare_amount)) (\<lambda>r.
     bindE (binop (fdiv_count rnd) (snd r) (w g)) (\<lambda>q.
     bindE (mf64 rnd g fare_amount) (\<lambda>m.
     binop (fsub rnd) q (map (fsq rnd) m))))"

definition fare_std64 ::
  "(real \<Rightarrow> real) \<Rightarrow> int grouping \<Rightarrow> f64 list \<Rightarrow> error + f64 list"
where
  "fare_std64 rnd g fare_amount = bindE (sf64 rnd g fare_amount) (broadcast g)"

text \<open>
  The cell's formula on the float64 fares of one group: the sum of the squares over the
  count, minus the square of the mean.
\<close>

definition variance64 :: "(real \<Rightarrow> real) \<Rightarrow> f64 list \<Rightarrow> f64" where
  "variance64 rnd xs =
     fsub rnd (fdiv_count rnd (fsum rnd (map (fsq rnd) xs)) (length xs))
       (fsq rnd (fdiv_count rnd (fsum rnd xs) (length xs)))"

text \<open>A table of one ride, and so of one singleton group.\<close>

definition one_ride_byloc :: "int grouping" where
  "one_ride_byloc = \<lparr>row_keys = [[1, 5]], unique_keys = [[1, 5]]\<rparr>"

section \<open>The lookup-table converter\<close>

text \<open>
  \<^verbatim>\<open>def cvt_to_string(v):\<close>
  \<^verbatim>\<open>    try:\<close>
  \<^verbatim>\<open>        if v == '':\<close>
  \<^verbatim>\<open>            return 'N/A'\<close>
  \<^verbatim>\<open>        else:\<close>
  \<^verbatim>\<open>            return str(v)\<close>
  \<^verbatim>\<open>    except:\<close>
  \<^verbatim>\<open>        return 'N/A'\<close>

  A Python value is either a string or any other object, which the function sees only
  through the truth of \<^verbatim>\<open>v == ''\<close> and through \<^verbatim>\<open>str(v)\<close>; each of the two may raise.
\<close>

text \<open>An exception raised inside the function, by the name of its class.\<close>

datatype exn = Exn string

datatype pyval = PyStr string | PyObj "exn + bool" "exn + string"

fun py_eq_empty :: "pyval \<Rightarrow> exn + bool" where
  "py_eq_empty (PyStr s) = Inr (s = [])"
| "py_eq_empty (PyObj eq_result str_result) = eq_result"

fun py_str :: "pyval \<Rightarrow> exn + string" where
  "py_str (PyStr s) = Inr s"
| "py_str (PyObj eq_result str_result) = str_result"

text \<open>The body of the \<^verbatim>\<open>try\<close>, then the bare \<^verbatim>\<open>except\<close>, which catches every exception.\<close>

definition cvt_try :: "pyval \<Rightarrow> exn + string" where
  "cvt_try v =
     (case py_eq_empty v of
        Inl e \<Rightarrow> Inl e
      | Inr b \<Rightarrow> if b then Inr ''N/A'' else py_str v)"

definition cvt_to_string :: "pyval \<Rightarrow> exn + string" where
  "cvt_to_string v = (case cvt_try v of Inl e \<Rightarrow> Inr ''N/A'' | Inr s \<Rightarrow> Inr s)"

section \<open>Facts about the library model\<close>

lemma bindE_Inr [simp]: "bindE (Inr x) f = f x"
  by (simp add: bindE_def)

lemma bindE_Inl [simp]: "bindE (Inl e) f = Inl e"
  by (simp add: bindE_def)

lemma GroupBy_Inr:
  assumes "GroupBy cols = Inr g"
  shows "cols \<noteq> []"
    and "list_all (\<lambda>d. length d = length (hd cols)) cols"
    and "row_keys g = map (\<lambda>i. map (\<lambda>d. d ! i) cols) [0..<length (hd cols)]"
    and "unique_keys g = sort (remdups (row_keys g))"
proof -
  obtain c cs where cols: "cols = c # cs" using assms by (cases cols) auto
  show "cols \<noteq> []" by (simp add: cols)
  show "list_all (\<lambda>d. length d = length (hd cols)) cols"
    using assms by (simp add: cols split: if_splits)
  show "row_keys g = map (\<lambda>i. map (\<lambda>d. d ! i) cols) [0..<length (hd cols)]"
    using assms by (auto simp: cols Let_def split: if_splits)
  then show "unique_keys g = sort (remdups (row_keys g))"
    using assms by (auto simp: cols Let_def split: if_splits)
qed

lemma GroupBy_unique_keys:
  assumes "GroupBy cols = Inr g"
  shows "distinct (unique_keys g)" and "set (unique_keys g) = set (row_keys g)"
  using GroupBy_Inr(4)[OF assms] by simp_all

text \<open>
  The group number of a key that is among the unique keys is in range and names that
  key, so the \<open>!\<close> of \<open>broadcast\<close> never reads out of range on a grouping that
  \<open>GroupBy\<close> built.
\<close>

lemma group_index_nth:
  assumes "k \<in> set uks"
  shows "group_index uks k < length uks" and "uks ! group_index uks k = k"
  using assms unfolding group_index_def by (induction uks) auto

lemma group_rows_lt: "i \<in> set (group_rows ks k) \<Longrightarrow> i < length ks"
  by (simp add: group_rows_def)

lemma mset_concat_filter_keys:
  assumes "distinct uks"
  shows "mset (concat (map (\<lambda>k. filter (\<lambda>x. f x = k) xs) uks))
       = mset (filter (\<lambda>x. f x \<in> set uks) xs)"
  using assms
proof (induction uks)
  case Nil
  then show ?case by simp
next
  case (Cons u uks)
  have "mset (filter (\<lambda>x. f x = u) xs) + mset (filter (\<lambda>x. f x \<in> set uks) xs)
      = mset (filter (\<lambda>x. f x \<in> set (u # uks)) xs)"
    using Cons.prems by (induction xs) auto
  with Cons show ?case by simp
qed

lemma group_rows_partition:
  assumes "distinct uks" and "set ks \<subseteq> set uks"
  shows "mset (concat (map (group_rows ks) uks)) = mset [0..<length ks]"
proof -
  have "filter (\<lambda>i. ks ! i \<in> set uks) [0..<length ks] = [0..<length ks]"
    using assms(2) by (auto simp: filter_id_conv)
  with mset_concat_filter_keys[OF assms(1), of "\<lambda>i. ks ! i" "[0..<length ks]"]
  show ?thesis by (simp add: group_rows_def[abs_def])
qed

lemma binop_map_map:
  "binop f (map a xs) (map b xs) = Inr (map (\<lambda>x. f (a x) (b x)) xs)"
  by (simp add: binop_def zip_map_map zip_same_conv_map comp_def)

lemma broadcast_map:
  assumes "set (row_keys g) \<subseteq> set (unique_keys g)"
  shows "broadcast g (map f (unique_keys g)) = Inr (map f (row_keys g))"
  using assms by (auto simp: broadcast_def group_index_nth subset_iff)

text \<open>The scan returns the first row that holds the maximum.\<close>

lemma argmax_scan_first_max:
  assumes "zs = pre @ xs" and "i = length pre" and "best < i" and "bv = zs ! best"
    and "\<forall>j<i. zs ! j \<le> bv" and "\<forall>j<best. zs ! j < bv"
  shows "argmax_scan xs i best bv < length zs
       \<and> (\<forall>j<length zs. zs ! j \<le> zs ! argmax_scan xs i best bv)
       \<and> (\<forall>j<argmax_scan xs i best bv. zs ! j < zs ! argmax_scan xs i best bv)"
  using assms
proof (induction xs arbitrary: pre i best bv)
  case Nil
  then show ?case by simp
next
  case (Cons x xs)
  have zi: "zs ! i = x" using Cons.prems(1,2) by simp
  have split: "zs = (pre @ [x]) @ xs" and len: "Suc i = length (pre @ [x])"
    using Cons.prems(1,2) by simp_all
  show ?case
  proof (cases "bv < x")
    case True
    have a: "\<forall>j<Suc i. zs ! j \<le> x"
      using Cons.prems(5) True zi by (auto simp: less_Suc_eq)
    have b: "\<forall>j<i. zs ! j < x"
      using Cons.prems(5) True by fastforce
    from Cons.IH[OF split len _ _ a b] zi True show ?thesis by simp
  next
    case False
    have a: "\<forall>j<Suc i. zs ! j \<le> bv"
      using Cons.prems(5) False zi by (auto simp: less_Suc_eq)
    from Cons.IH[OF split len _ Cons.prems(4) a Cons.prems(6)] Cons.prems(3) False
    show ?thesis by simp
  qed
qed

lemma argmax_first_max:
  assumes "zs \<noteq> []"
  shows "\<exists>r. argmax zs = Inr r \<and> r < length zs
           \<and> (\<forall>j<length zs. zs ! j \<le> zs ! r) \<and> (\<forall>j<r. zs ! j < zs ! r)"
proof -
  obtain x xs where zs: "zs = x # xs" using assms by (cases zs) auto
  have "argmax_scan xs 1 0 x < length (x # xs)
       \<and> (\<forall>j<length (x # xs). (x # xs) ! j \<le> (x # xs) ! argmax_scan xs 1 0 x)
       \<and> (\<forall>j<argmax_scan xs 1 0 x. (x # xs) ! j < (x # xs) ! argmax_scan xs 1 0 x)"
    by (rule argmax_scan_first_max[of "x # xs" "[x]" xs 1 0 x]) simp_all
  then show ?thesis
    unfolding zs by (simp del: length_Cons)
qed

text \<open>
  The two-moment variance is never negative in exact arithmetic, so there the clamp of the
  specification is the identity.
\<close>

lemma sum_list_sq_dev:
  "sum_list (map (\<lambda>x. (x - m) ^ 2) xs)
     = sum_list (map (\<lambda>x. x ^ 2) xs) - 2 * m * sum_list xs + real (length xs) * m ^ 2"
  by (induction xs) (simp_all add: power2_eq_square algebra_simps)

lemma variance_per_group_nonneg: "0 \<le> variance_per_group xs"
proof (cases "xs = []")
  case True
  then show ?thesis by (simp add: variance_per_group_def mean_of_def)
next
  case False
  define n where "n = real (length xs)"
  define m where "m = sum_list xs / n"
  have n: "0 < n" using False by (simp add: n_def)
  have s: "sum_list xs = n * m" using n by (simp add: m_def)
  have "0 \<le> sum_list (map (\<lambda>x. (x - m) ^ 2) xs)"
    by (rule sum_list_nonneg) auto
  also have "\<dots> = sum_list (map (\<lambda>x. x ^ 2) xs) - 2 * m * (n * m) + n * m ^ 2"
    using sum_list_sq_dev[of m xs] by (simp only: s n_def)
  also have "\<dots> = sum_list (map (\<lambda>x. x ^ 2) xs) - n * m ^ 2"
    by (simp add: power2_eq_square algebra_simps)
  finally have "n * m ^ 2 \<le> sum_list (map (\<lambda>x. x ^ 2) xs)" by simp
  then have "m ^ 2 \<le> sum_list (map (\<lambda>x. x ^ 2) xs) / n"
    using n by (simp add: pos_le_divide_eq mult.commute)
  then show ?thesis
    by (simp add: variance_per_group_def mean_of_def m_def n_def)
qed

lemma std_per_group_sqrt: "std_per_group xs = sqrt (variance_per_group xs)"
  using variance_per_group_nonneg[of xs] by (simp add: std_per_group_def max_def)

text \<open>A mask of the right length keeps, in every column, the rows \<open>kept\<close> lists.\<close>

lemma zip_as_map:
  assumes "length xs = length ys"
  shows "zip xs ys = map (\<lambda>i. (xs ! i, ys ! i)) [0..<length xs]"
  using assms by (intro nth_equalityI) simp_all

lemma compress_kept:
  assumes "length xs = length m"
  shows "compress xs m = map (\<lambda>i. xs ! i) (kept m)"
  by (simp add: compress_def kept_def zip_as_map[OF assms] filter_map comp_def assms)

lemma length_kept: "length (kept m) = length (filter id m)"
proof -
  have "compress m m = filter id m"
    by (simp add: compress_def zip_same_conv_map filter_map comp_def id_def)
  with compress_kept[of m m] show ?thesis by (metis length_map)
qed

lemma sorted_kept: "sorted_wrt (<) (kept m)"
  by (simp add: kept_def sorted_wrt_filter)

lemma kept_all_False:
  assumes "list_all (\<lambda>b. \<not> b) m"
  shows "kept m = []"
  unfolding kept_def filter_empty_conv using assms by (simp add: list_all_length)

lemma getitem_mask_gather:
  assumes "size_pd v = length m"
  shows "getitem_mask v m = Inr (gather v (kept m))"
  using assms by (cases v) (simp_all add: compress_kept)

lemma size_gather [simp]: "size_pd (gather v idx) = length idx"
  by (cases v) simp_all

lemma DataFrame_Inr:
  assumes "DataFrame items = Inr data"
  shows "data = items" and "list_all (\<lambda>(k, v). size_pd v = nrows items) items"
proof -
  show "data = items"
    using assms by (cases items) (auto split: if_splits)
  show "list_all (\<lambda>(k, v). size_pd v = nrows items) items"
    using assms by (cases items) (auto split: if_splits)
qed

lemma DataFrame_same_size:
  assumes "list_all (\<lambda>(k, v). size_pd v = n) items"
  shows "DataFrame items = Inr items"
  using assms by (cases items) (auto simp: list_all_iff)

lemma dict_comp_mask:
  assumes "list_all (\<lambda>(k, v). size_pd v = length m) data"
  shows "dict_comp (\<lambda>v. getitem_mask v m) data
       = Inr (map (\<lambda>(k, v). (k, gather v (kept m))) data)"
  using assms by (induction data) (auto simp: getitem_mask_gather)

lemma filter_cell:
  assumes "list_all (\<lambda>(k, v). size_pd v = length m) data"
  shows "bindE (dict_comp (\<lambda>v. getitem_mask v m) data) DataFrame
       = Inr (map (\<lambda>(k, v). (k, gather v (kept m))) data)"
proof -
  have "list_all (\<lambda>(k, v). size_pd v = length (kept m))
          (map (\<lambda>(k, v). (k, gather v (kept m))) data)"
    by (auto simp: list_all_iff)
  from DataFrame_same_size[OF this] show ?thesis
    by (simp add: dict_comp_mask[OF assms])
qed

lemma getitem_col_size:
  assumes "list_all (\<lambda>(k, v). size_pd v = n) data" and "getitem_col data k = Inr c"
  shows "size_pd c = n"
proof -
  from assms(2) have "map_of data k = Some c"
    by (simp add: getitem_col_def split: option.splits)
  then have "(k, c) \<in> set data" by (rule map_of_SomeD)
  with assms(1) show ?thesis by (auto simp: list_all_iff)
qed

lemma ge_scalar_length: "ge_scalar c x = Inr m \<Longrightarrow> length m = size_pd c"
  by (cases c) auto

lemma gt_scalar_length: "gt_scalar c x = Inr m \<Longrightarrow> length m = size_pd c"
  by (cases c) auto

lemma non_neg_length:
  assumes "list_all (\<lambda>(k, v). size_pd v = n) data" and "non_neg data = Inr m"
  shows "length m = n"
proof -
  from assms(2) obtain c where c: "getitem_col data ''fare_amount'' = Inr c"
    and m: "ge_scalar c 0 = Inr m"
    by (cases "getitem_col data ''fare_amount''") (auto simp: non_neg_def)
  from getitem_col_size[OF assms(1) c] ge_scalar_length[OF m] show ?thesis by simp
qed

lemma exorbitant_length:
  assumes "list_all (\<lambda>(k, v). size_pd v = n) data" and "exorbitant data = Inr m"
  shows "length m = n"
proof -
  from assms(2) obtain c where c: "getitem_col data ''fare_z'' = Inr c"
    and m: "gt_scalar c 2 = Inr m"
    by (cases "getitem_col data ''fare_z''") (auto simp: exorbitant_def)
  from getitem_col_size[OF assms(1) c] gt_scalar_length[OF m] show ?thesis by simp
qed

section \<open>The cells in closed form\<close>

lemma byloc_Inr:
  assumes "byloc PU DO = Inr g"
  shows "length DO = length PU"
    and "row_keys g = map (\<lambda>i. [PU ! i, DO ! i]) [0..<length PU]"
    and "distinct (unique_keys g)"
    and "set (unique_keys g) = set (row_keys g)"
  using assms GroupBy_Inr[of "[PU, DO]" g] GroupBy_unique_keys[of "[PU, DO]" g]
  by (simp_all add: byloc_def)

lemma group_fares_sq:
  assumes "length vals = length (row_keys g)"
  shows "map (\<lambda>i. map (\<lambda>x. x ^ 2) vals ! i) (group_rows (row_keys g) k)
       = map (\<lambda>x. x ^ 2) (group_fares g vals k)"
  using assms by (auto simp: group_fares_def dest: group_rows_lt)

lemma mf_closed:
  assumes "length fare = length (row_keys g)"
  shows "mf g fare = Inr (map (\<lambda>k. mean_of (group_fares g fare k)) (unique_keys g))"
  using assms by (simp add: mf_def gb_mean_def mean_of_def group_fares_def)

lemma gb_sum_sq_closed:
  assumes "length fare = length (row_keys g)"
  shows "gb_sum g (map (\<lambda>x. x ^ 2) fare)
       = Inr (unique_keys g,
              map (\<lambda>k. sum_list (map (\<lambda>x. x ^ 2) (group_fares g fare k))) (unique_keys g))"
  using assms by (simp add: gb_sum_def group_fares_sq)

lemma w_closed: "w g = map (\<lambda>k. length (group_fares g fare k)) (unique_keys g)"
  by (simp add: w_def gb_size_def group_fares_def)

lemma sf_closed:
  assumes "length fare = length (row_keys g)"
  shows "sf g fare = Inr (map (\<lambda>k. variance_per_group (group_fares g fare k)) (unique_keys g))"
  by (simp add: sf_def gb_sum_sq_closed[OF assms] w_closed[of g fare] mf_closed[OF assms]
      binop_map_map comp_def variance_per_group_def mean_of_def)

lemma group_rows_row_key:
  assumes "byloc PU DO = Inr g" and "i < length PU"
  shows "group_rows (row_keys g) (row_keys g ! i) = rows_like PU DO i"
  using byloc_Inr(1,2)[OF assms(1)] assms(2)
  by (auto simp: group_rows_def rows_like_def intro!: filter_cong)

lemma fare_mean_closed:
  assumes "byloc PU DO = Inr g" and "length fare = length PU"
  shows "fare_mean g fare = Inr (map (\<lambda>k. mean_of (group_fares g fare k)) (row_keys g))"
  using byloc_Inr[OF assms(1)] assms(2)
  by (simp add: fare_mean_def mf_closed broadcast_map)

lemma fare_std_closed:
  assumes "byloc PU DO = Inr g" and "length fare = length PU"
  shows "fare_std g fare
       = Inr (map (\<lambda>k. variance_per_group (group_fares g fare k)) (row_keys g))"
  using byloc_Inr[OF assms(1)] assms(2)
  by (simp add: fare_std_def sf_closed broadcast_map)

lemma fare_z_closed:
  assumes "byloc PU DO = Inr g" and "length fare = length PU"
  shows "\<exists>z. fare_z g fare = Inr z \<and> length z = length PU
           \<and> (\<forall>i<length PU. z ! i =
                 (fare ! i - mean_of (group_fares g fare (row_keys g ! i)))
                 / (variance_per_group (group_fares g fare (row_keys g ! i)) + 1))"
proof -
  have n: "length (row_keys g) = length PU" using byloc_Inr(2)[OF assms(1)] by simp
  show ?thesis
    using n assms(2)
    by (simp add: fare_z_def fare_mean_closed[OF assms] fare_std_closed[OF assms] binop_def)
qed

text \<open>
  No cell divides by zero: every group has a row, and \<open>fare_std + 1\<close> is positive. So
  the value HOL gives to a division by zero is never read.
\<close>

lemma w_pos:
  assumes "byloc PU DO = Inr g"
  shows "list_all (\<lambda>n. 0 < n) (w g)"
proof -
  have "group_rows (row_keys g) k \<noteq> []" if "k \<in> set (unique_keys g)" for k
  proof -
    from that byloc_Inr(4)[OF assms] obtain i where "i < length (row_keys g)" "row_keys g ! i = k"
      by (auto simp: in_set_conv_nth)
    then have "i \<in> set (group_rows (row_keys g) k)" by (simp add: group_rows_def)
    then show ?thesis by auto
  qed
  then show ?thesis by (simp add: w_def gb_size_def list_all_iff)
qed

lemma fare_std_nonneg:
  assumes "byloc PU DO = Inr g" and "length fare = length PU"
  shows "\<exists>s. fare_std g fare = Inr s \<and> list_all (\<lambda>x. 0 < x + 1) s"
  by (simp add: fare_std_closed[OF assms] list_all_iff variance_per_group_nonneg add_nonneg_pos)

section \<open>The example tables, cell by cell\<close>

lemma two_group_byloc_eq: "byloc two_group_PU two_group_DO = Inr two_group_byloc"
  by (simp add: byloc_def two_group_PU_def two_group_DO_def two_group_byloc_def upt_rec)

lemma two_group_rows:
  "group_rows (row_keys two_group_byloc) [1, 5] = [0, 2, 4]"
  "group_rows (row_keys two_group_byloc) [2, 5] = [1, 3]"
  by (simp_all add: group_rows_def two_group_byloc_def upt_rec)

lemma two_group_fares:
  "group_fares two_group_byloc two_group_fare [1, 5] = [10, 10, 10]"
  "group_fares two_group_byloc two_group_fare [2, 5] = [0, 20]"
  by (simp_all add: group_fares_def two_group_rows two_group_fare_def)

lemma two_group_length: "length two_group_fare = length two_group_PU"
  by (simp add: two_group_fare_def two_group_PU_def)

lemma two_group_mean_of:
  "mean_of [10, 10, 10] = 10" "mean_of [0, 20] = 10"
  by (simp_all add: mean_of_def)

lemma two_group_variance:
  "variance_per_group [10, 10, 10] = 0" "variance_per_group [0, 20] = 100"
  by (simp_all add: variance_per_group_def mean_of_def)

lemma two_group_fare_mean:
  "fare_mean two_group_byloc two_group_fare = Inr [10, 10, 10, 10, 10]"
  by (simp add: fare_mean_closed[OF two_group_byloc_eq two_group_length])
     (simp add: two_group_byloc_def two_group_fares[unfolded two_group_byloc_def]
        two_group_mean_of)

lemma two_group_fare_std:
  "fare_std two_group_byloc two_group_fare = Inr [0, 100, 0, 100, 0]"
  by (simp add: fare_std_closed[OF two_group_byloc_eq two_group_length])
     (simp add: two_group_byloc_def two_group_fares[unfolded two_group_byloc_def]
        two_group_variance)

lemma two_group_fare_z:
  "fare_z two_group_byloc two_group_fare = Inr [0, - (10 / 101), 0, 10 / 101, 0]"
  by (simp add: fare_z_def two_group_fare_mean two_group_fare_std)
     (simp add: binop_def two_group_fare_def)

lemma two_group_w: "w two_group_byloc = [3, 2]"
  by (simp add: w_closed[of two_group_byloc two_group_fare])
     (simp add: two_group_byloc_def two_group_fares[unfolded two_group_byloc_def])

lemma two_group_mf: "mf two_group_byloc two_group_fare = Inr [10, 10]"
proof -
  have "length two_group_fare = length (row_keys two_group_byloc)"
    by (simp add: two_group_fare_def two_group_byloc_def)
  from mf_closed[OF this] show ?thesis
    by (simp add: two_group_byloc_def two_group_fares[unfolded two_group_byloc_def]
        two_group_mean_of)
qed

lemma two_group_std: "std_per_group [10, 10, 10] = 0" "std_per_group [0, 20] = 10"
  by (simp_all add: std_per_group_def two_group_variance real_sqrt_unique)

lemma three_rides_DataFrame: "DataFrame three_rides = Inr three_rides"
  by (simp add: three_rides_def)

lemma three_rides_non_neg: "non_neg three_rides = Inr [True, False, True]"
  by (simp add: non_neg_def getitem_col_def three_rides_def)

lemma three_rides_exorbitant: "exorbitant three_rides = Inr [True, False, False]"
  by (simp add: exorbitant_def getitem_col_def three_rides_def)

lemma kept_examples: "kept [True, False, True] = [0, 2]" "kept [True, False, False] = [0]"
  by (simp_all add: kept_def upt_rec)

section \<open>The variance cell over float64 values: facts\<close>

lemma overflow_at_gt_1: "1 < overflow_at"
  by (simp add: overflow_at_def)

lemma group_index_of_nth:
  assumes "distinct uks" and "j < length uks"
  shows "group_index uks (uks ! j) = j"
proof -
  have "uks ! j \<in> set uks" using assms(2) by simp
  from group_index_nth[OF this] assms show ?thesis
    by (simp add: nth_eq_iff_index_eq)
qed

lemma finish_in_range:
  assumes "rounding rnd" and "\<bar>r\<bar> < overflow_at" and "rnd r = r"
  shows "finish rnd r = Fin r"
  using assms by (auto simp: finish_def)

lemma finish_overflow: "overflow_at \<le> r \<Longrightarrow> finish rnd r = PInf"
  by (simp add: finish_def)

lemma square_in_range:
  assumes "x * x < overflow_at"
  shows "\<bar>x\<bar> < overflow_at"
proof (rule ccontr)
  assume "\<not> \<bar>x\<bar> < overflow_at"
  then have a: "overflow_at \<le> \<bar>x\<bar>" by simp
  have "overflow_at * 1 \<le> overflow_at * overflow_at"
    using overflow_at_gt_1 by (intro mult_left_mono) simp_all
  also have "\<dots> \<le> \<bar>x\<bar> * \<bar>x\<bar>"
    using a overflow_at_gt_1 by (intro mult_mono) simp_all
  also have "\<dots> = x * x" by simp
  finally show False using assms by simp
qed

text \<open>
  A group of one finite fare: the square is rounded once, and the same rounded square
  stands on both sides of the subtraction. When the square overflows, or the fare is
  not finite, both sides are infinite or NaN and the difference is NaN.
\<close>

lemma variance64_single_finite:
  assumes "rounding rnd" and "rnd x = x" and "x * x < overflow_at"
  shows "variance64 rnd [Fin x] = Fin 0"
proof -
  note T = overflow_at_gt_1
  have r0: "rnd 0 = 0" and r1: "rnd 1 = 1" and idem: "\<And>r. rnd (rnd r) = rnd r"
    and keep: "\<And>r. \<bar>r\<bar> < overflow_at \<Longrightarrow> \<bar>rnd r\<bar> < overflow_at"
    using assms(1) by (simp_all add: rounding_def)
  define p where "p = rnd (x * x)"
  have xx: "\<bar>x * x\<bar> < overflow_at" using assms(3) by (simp add: abs_mult_self_eq)
  have p: "\<bar>p\<bar> < overflow_at" "rnd p = p"
    unfolding p_def using keep[OF xx] idem by simp_all
  have nn: "\<not> x * x \<le> - overflow_at"
    using T zero_le_square[of x] by linarith
  have sq: "finish rnd (x * x) = Fin p"
    using assms(3) nn by (simp add: finish_def p_def)
  have zero: "finish rnd 0 = Fin 0"
    using T r0 by (simp add: finish_def)
  have fp: "finish rnd p = Fin p"
    by (rule finish_in_range[OF assms(1) p])
  have fx: "finish rnd x = Fin x"
    by (rule finish_in_range[OF assms(1) square_in_range[OF assms(3)] assms(2)])
  have "fdiv_count rnd (fsum rnd [Fin p]) 1 = Fin p"
    by (simp add: fsum_def r1 fp)
  moreover have "fdiv_count rnd (fsum rnd [Fin x]) 1 = Fin x"
    by (simp add: fsum_def r1 fx)
  ultimately show ?thesis
    by (simp add: variance64_def sq fsub_def zero)
qed

lemma variance64_single_overflow:
  assumes "rounding rnd" and "rnd x = x" and "overflow_at \<le> x * x"
  shows "variance64 rnd [Fin x] = NaN"
proof -
  have r1: "rnd 1 = 1" using assms(1) by (simp add: rounding_def)
  have sq: "finish rnd (x * x) = PInf"
    by (rule finish_overflow[OF assms(3)])
  have "finish rnd x = PInf \<or> finish rnd x = NInf \<or> finish rnd x = Fin x"
    using assms(2) by (auto simp: finish_def)
  then have "fsq rnd (fdiv_count rnd (fsum rnd [Fin x]) 1) = PInf"
  proof (elim disjE)
    assume "finish rnd x = Fin x"
    then show ?thesis by (simp add: fsum_def r1 sq)
  qed (simp_all add: fsum_def)
  then show ?thesis
    by (simp add: variance64_def sq fsub_def fsum_def)
qed

lemma variance64_single_special:
  "variance64 rnd [NaN] = NaN" "variance64 rnd [PInf] = NaN" "variance64 rnd [NInf] = NaN"
  by (simp_all add: variance64_def fsub_def fsum_def)

lemma sf64_closed:
  assumes "length fare = length (row_keys g)"
  shows "sf64 rnd g fare
       = Inr (map (\<lambda>k. variance64 rnd (map (\<lambda>i. fare ! i) (group_rows (row_keys g) k)))
               (unique_keys g))"
proof -
  have sq: "map (\<lambda>i. map (fsq rnd) fare ! i) (group_rows (row_keys g) k)
      = map (fsq rnd) (map (\<lambda>i. fare ! i) (group_rows (row_keys g) k))" for k
    using assms by (auto dest: group_rows_lt)
  show ?thesis
    by (simp add: sf64_def gb_sum64_def mf64_def gb_mean64_def assms sq w_def gb_size_def
        binop_map_map variance64_def comp_def)
qed

lemma rounding_id: "rounding (\<lambda>r. r)"
  by (simp add: rounding_def)

lemma one_ride_byloc_eq: "byloc [1] [5] = Inr one_ride_byloc"
  by (simp add: byloc_def one_ride_byloc_def Let_def)

lemma one_ride_sf64:
  "sf64 rnd one_ride_byloc [a] = Inr [variance64 rnd [a]]"
proof -
  have "length [a] = length (row_keys one_ride_byloc)" by (simp add: one_ride_byloc_def)
  from sf64_closed[OF this, of rnd] show ?thesis
    by (simp add: one_ride_byloc_def group_rows_def)
qed

lemma one_ride_fare_std64:
  "fare_std64 rnd one_ride_byloc [a] = Inr [variance64 rnd [a]]"
  by (simp add: fare_std64_def one_ride_sf64)
     (simp add: broadcast_def one_ride_byloc_def group_index_def)

lemma two_600_overflows: "overflow_at \<le> (2 :: real) ^ 600 * 2 ^ 600"
  by (simp add: overflow_at_def)

section \<open>The claims\<close>

text \<open>
  C1. The claim: the \<open>fare_std\<close> value attached to every row is
  \<open>sqrt (max variance 0)\<close> of the row's group. The code attaches the variance itself:
  \<open>sf\<close> is never passed through a square root. On the two-group table the rows of
  group B get 100, where the standard deviation of the fares 0 and 20 is 10. The notebook
  announces "mean and stddev" and names the column \<open>fare_std\<close>.
\<close>

theorem fare_std_two_group:
  "fare_std two_group_byloc two_group_fare = Inr [0, 100, 0, 100, 0]
   \<and> map (\<lambda>k. std_per_group (group_fares two_group_byloc two_group_fare k))
       (row_keys two_group_byloc) = [0, 10, 0, 10, 0]"
  by (simp add: two_group_fare_std)
     (simp add: two_group_byloc_def two_group_fares[unfolded two_group_byloc_def] two_group_std)

text \<open>
  C2. The claim: on the two-group table the z-scores of group B are \<open>-10/11\<close> and
  \<open>10/11\<close>. The cell divides by \<open>fare_std + 1\<close>, and \<open>fare_std\<close> holds the
  variance 100 rather than the standard deviation 10, so the code gives \<open>-10/101\<close> and
  \<open>10/101\<close>; the rows of group A get 0 either way.
\<close>

theorem fare_z_two_group:
  "anomalous_fares two_group_PU two_group_DO two_group_fare
     = Inr ([10, 10, 10, 10, 10], [0, 100, 0, 100, 0], [0, - (10 / 101), 0, 10 / 101, 0])
   \<and> fare_z two_group_byloc two_group_fare = Inr [0, - (10 / 101), 0, 10 / 101, 0]
   \<and> (0 - mean_of [0, 20]) / (std_per_group [0, 20] + 1) = - (10 / 11)
   \<and> (20 - mean_of [0, 20]) / (std_per_group [0, 20] + 1) = 10 / 11"
  by (simp add: anomalous_fares_def two_group_byloc_eq two_group_fare_mean two_group_fare_std
      two_group_fare_z two_group_std two_group_mean_of)

text \<open>
  C3. For every table grouped by the location pair, broadcasting the per-group mean (and
  the per-group \<open>sf\<close>) back to the rows gives one value per row, in row order: each
  column is as long as the table, the value at row \<open>i\<close> is the per-group value of the one
  group of row \<open>i\<close>, and for the mean this is the mean of the fares of the rows that have
  the pickup and dropoff location of row \<open>i\<close>, computed by hand.
\<close>

theorem broadcast_group_mean:
  assumes "byloc PU DO = Inr g" and "length fare = length PU"
  shows "\<exists>mv sv m s. mf g fare = Inr mv \<and> sf g fare = Inr sv
           \<and> fare_mean g fare = Inr m \<and> fare_std g fare = Inr s
           \<and> length m = length PU \<and> length s = length PU
           \<and> (\<forall>i<length PU.
                 group_index (unique_keys g) (row_keys g ! i) < length (unique_keys g)
               \<and> m ! i = mv ! group_index (unique_keys g) (row_keys g ! i)
               \<and> s ! i = sv ! group_index (unique_keys g) (row_keys g ! i)
               \<and> m ! i = mean_of (fares_like PU DO fare i))"
proof -
  have n: "length (row_keys g) = length PU" using byloc_Inr(2)[OF assms(1)] by simp
  have l: "length fare = length (row_keys g)" using n assms(2) by simp
  have k: "group_index (unique_keys g) (row_keys g ! i) < length (unique_keys g)"
    if "i < length PU" for i
    using that n byloc_Inr(4)[OF assms(1)] by (intro group_index_nth(1)) simp
  have a: "fare_mean g fare = Inr (map (\<lambda>k. mean_of (group_fares g fare k)) (row_keys g))"
    by (rule fare_mean_closed[OF assms])
  have b: "fare_std g fare = Inr (map (\<lambda>k. variance_per_group (group_fares g fare k)) (row_keys g))"
    by (rule fare_std_closed[OF assms])
  have e: "unique_keys g ! group_index (unique_keys g) (row_keys g ! i) = row_keys g ! i"
    if "i < length PU" for i
    using that n byloc_Inr(4)[OF assms(1)] by (intro group_index_nth(2)) simp
  show ?thesis
    unfolding mf_closed[OF l] sf_closed[OF l] a b
    using n k e
    by (simp add: group_fares_def fares_like_def group_rows_row_key[OF assms(1)])
qed

theorem broadcast_group_mean_witness:
  "byloc two_group_PU two_group_DO = Inr two_group_byloc
   \<and> length two_group_fare = length two_group_PU
   \<and> (\<exists>m. fare_mean two_group_byloc two_group_fare = Inr m \<and> length m = 5
          \<and> m ! 3 = mean_of [0, 20] \<and> fares_like two_group_PU two_group_DO two_group_fare 3 = [0, 20])"
proof -
  have f: "fares_like two_group_PU two_group_DO two_group_fare 3 = [0, 20]"
    by (simp add: fares_like_def rows_like_def two_group_PU_def two_group_DO_def
        two_group_fare_def upt_rec)
  have l: "length two_group_PU = 5" by (simp add: two_group_PU_def)
  from broadcast_group_mean[OF two_group_byloc_eq two_group_length]
  obtain m where "fare_mean two_group_byloc two_group_fare = Inr m"
    and "length m = length two_group_PU"
    and "\<forall>i<length two_group_PU. m ! i = mean_of (fares_like two_group_PU two_group_DO two_group_fare i)"
    by blast
  then show ?thesis
    using f l two_group_byloc_eq two_group_length by simp
qed

text \<open>
  C4. For every group, \<open>sf\<close> is computed from the per-group aggregates alone: the
  group's sum of squared fares divided by the group's count, minus the square of the
  group's mean; this is the two-moment variance \<open>E[x^2] - (E[x])^2\<close> of the group's
  fares.
\<close>

theorem variance_two_moment:
  assumes "byloc PU DO = Inr g" and "length fare = length PU"
  shows "\<exists>ss m s. gb_sum g (map (\<lambda>x. x ^ 2) fare) = Inr (unique_keys g, ss)
           \<and> mf g fare = Inr m \<and> sf g fare = Inr s
           \<and> length s = length (unique_keys g)
           \<and> (\<forall>j<length (unique_keys g).
                 s ! j = ss ! j / real (w g ! j) - (m ! j) ^ 2
               \<and> s ! j = variance_per_group (group_fares g fare (unique_keys g ! j)))"
proof -
  have n: "length fare = length (row_keys g)"
    using byloc_Inr(2)[OF assms(1)] assms(2) by simp
  show ?thesis
    by (simp add: gb_sum_sq_closed[OF n] w_closed[of g fare] mf_closed[OF n] sf_closed[OF n]
        variance_per_group_def mean_of_def)
qed

theorem variance_two_moment_witness:
  "byloc two_group_PU two_group_DO = Inr two_group_byloc
   \<and> length two_group_fare = length two_group_PU
   \<and> (\<exists>ss s. gb_sum two_group_byloc (map (\<lambda>x. x ^ 2) two_group_fare)
                = Inr (unique_keys two_group_byloc, ss)
          \<and> sf two_group_byloc two_group_fare = Inr s
          \<and> s ! 1 = ss ! 1 / real 2 - 10 ^ 2
          \<and> s ! 1 = variance_per_group [0, 20])"
proof -
  from variance_two_moment[OF two_group_byloc_eq two_group_length]
  obtain ss m s where a: "gb_sum two_group_byloc (map (\<lambda>x. x ^ 2) two_group_fare)
        = Inr (unique_keys two_group_byloc, ss)"
    and b: "mf two_group_byloc two_group_fare = Inr m"
    and c: "sf two_group_byloc two_group_fare = Inr s"
    and d: "\<forall>j<length (unique_keys two_group_byloc).
          s ! j = ss ! j / real (w two_group_byloc ! j) - (m ! j) ^ 2
          \<and> s ! j = variance_per_group
                (group_fares two_group_byloc two_group_fare (unique_keys two_group_byloc ! j))"
    by blast
  have k: "unique_keys two_group_byloc ! 1 = [2, 5]" "1 < length (unique_keys two_group_byloc)"
    by (simp_all add: two_group_byloc_def)
  have m: "m = [10, 10]" using b two_group_mf by simp
  from d k(2) have e1: "s ! 1 = ss ! 1 / real (w two_group_byloc ! 1) - (m ! 1) ^ 2"
    and e2: "s ! 1 = variance_per_group
            (group_fares two_group_byloc two_group_fare (unique_keys two_group_byloc ! 1))"
    by blast+
  have f1: "s ! 1 = ss ! 1 / real 2 - 10 ^ 2"
    using e1 by (simp add: m two_group_w)
  have f2: "s ! 1 = variance_per_group [0, 20]"
    using e2 by (simp only: k(1) two_group_fares)
  from a c f1 f2 two_group_byloc_eq two_group_length show ?thesis by blast
qed

text \<open>
  C5. The claim: on the two-group table the maximum z-score is \<open>0.909...\<close> and the
  argmax is the row of the fare 20. The argmax of the code is that row (row 3), but the
  z-score there is \<open>10/101\<close>, not \<open>10/11\<close>: the same missing square root as in C1.
\<close>

theorem worst_two_group:
  "worst two_group_byloc two_group_fare = Inr 3 \<and> two_group_fare ! 3 = 20
   \<and> (\<exists>z. fare_z two_group_byloc two_group_fare = Inr z \<and> z ! 3 = 10 / 101 \<and> z ! 3 \<noteq> 10 / 11)"
  by (simp add: worst_def two_group_fare_z) (simp add: two_group_fare_def)

text \<open>
  C6. For every choice of key columns that \<open>GroupBy\<close> accepts (at least one column, all
  of one length), the groups partition the rows: the key of row \<open>i\<close> is the tuple of the
  key columns at \<open>i\<close>, the unique keys are distinct, every row lies in the rows of exactly one unique key, and the rows of all
  groups together are the rows of the table, each once (as row numbers, and as the
  entries of any column or list of whole rows of the table's length).
\<close>

theorem grouping_partitions_rows:
  assumes "GroupBy cols = Inr g"
  shows "cols \<noteq> [] \<and> list_all (\<lambda>c. length c = length (hd cols)) cols
       \<and> length (row_keys g) = length (hd cols)
       \<and> (\<forall>i<length (hd cols). row_keys g ! i = map (\<lambda>c. c ! i) cols)
       \<and> distinct (unique_keys g)
       \<and> (\<forall>i<length (hd cols).
             \<exists>!k. k \<in> set (unique_keys g) \<and> i \<in> set (group_rows (row_keys g) k))
       \<and> mset (concat (map (group_rows (row_keys g)) (unique_keys g)))
           = mset [0..<length (hd cols)]
       \<and> (\<forall>rows. length rows = length (hd cols) \<longrightarrow>
             mset (concat (map (\<lambda>k. map (\<lambda>i. rows ! i) (group_rows (row_keys g) k))
                            (unique_keys g)))
               = mset rows)"
proof -
  note G = GroupBy_Inr[OF assms] and U = GroupBy_unique_keys[OF assms]
  have n: "length (row_keys g) = length (hd cols)" by (simp add: G(3))
  have k: "\<forall>i<length (hd cols). row_keys g ! i = map (\<lambda>c. c ! i) cols" by (simp add: G(3))
  have one: "\<forall>i<length (hd cols).
      \<exists>!k. k \<in> set (unique_keys g) \<and> i \<in> set (group_rows (row_keys g) k)"
  proof (intro allI impI)
    fix i assume i: "i < length (hd cols)"
    show "\<exists>!k. k \<in> set (unique_keys g) \<and> i \<in> set (group_rows (row_keys g) k)"
    proof (rule ex1I[of _ "row_keys g ! i"])
      show "row_keys g ! i \<in> set (unique_keys g)
          \<and> i \<in> set (group_rows (row_keys g) (row_keys g ! i))"
        using i n by (simp add: U(2) group_rows_def)
    next
      fix k assume "k \<in> set (unique_keys g) \<and> i \<in> set (group_rows (row_keys g) k)"
      then show "k = row_keys g ! i" by (simp add: group_rows_def)
    qed
  qed
  have P: "mset (concat (map (group_rows (row_keys g)) (unique_keys g)))
      = mset [0..<length (row_keys g)]"
    by (rule group_rows_partition) (simp_all add: U)
  have R: "mset (concat (map (\<lambda>k. map (\<lambda>i. rows ! i) (group_rows (row_keys g) k))
                            (unique_keys g))) = mset rows"
    if r: "length rows = length (hd cols)" for rows :: "'b list"
  proof -
    have "concat (map (\<lambda>k. map (\<lambda>i. rows ! i) (group_rows (row_keys g) k)) (unique_keys g))
        = map (\<lambda>i. rows ! i) (concat (map (group_rows (row_keys g)) (unique_keys g)))"
      by (simp add: map_concat comp_def)
    then have "mset (concat (map (\<lambda>k. map (\<lambda>i. rows ! i) (group_rows (row_keys g) k))
                               (unique_keys g)))
        = image_mset (\<lambda>i. rows ! i)
            (mset (concat (map (group_rows (row_keys g)) (unique_keys g))))"
      by (simp only: mset_map)
    also have "\<dots> = mset (map (\<lambda>i. rows ! i) [0..<length rows])"
      unfolding P by (simp add: n r)
    also have "\<dots> = mset rows" by (simp add: map_nth)
    finally show ?thesis .
  qed
  from G(1,2) n k U(1) one P R show ?thesis by simp
qed

theorem grouping_partitions_rows_witness:
  "GroupBy [two_group_PU, two_group_DO] = Inr two_group_byloc
   \<and> length (row_keys two_group_byloc) = 5
   \<and> distinct (unique_keys two_group_byloc)
   \<and> mset (concat (map (group_rows (row_keys two_group_byloc)) (unique_keys two_group_byloc)))
       = mset [0..<5]
   \<and> concat (map (group_rows (row_keys two_group_byloc)) (unique_keys two_group_byloc))
       = [0, 2, 4, 1, 3]"
proof -
  have g: "GroupBy [two_group_PU, two_group_DO] = Inr two_group_byloc"
    using two_group_byloc_eq by (simp add: byloc_def)
  have h: "length (hd [two_group_PU, two_group_DO]) = 5" by (simp add: two_group_PU_def)
  have c: "concat (map (group_rows (row_keys two_group_byloc)) (unique_keys two_group_byloc))
      = [0, 2, 4, 1, 3]"
    using two_group_rows by (simp add: two_group_byloc_def)
  from grouping_partitions_rows[OF g]
  have a: "length (row_keys two_group_byloc) = length (hd [two_group_PU, two_group_DO])"
    and b: "distinct (unique_keys two_group_byloc)"
    and p: "mset (concat (map (group_rows (row_keys two_group_byloc))
                            (unique_keys two_group_byloc)))
          = mset [0..<length (hd [two_group_PU, two_group_DO])]"
    by blast+
  from g a[unfolded h] b p[unfolded h] c show ?thesis by blast
qed

text \<open>
  C7. Over float64 values: for every group with count 1 whose one fare is a finite
  float64 with a square below the overflow threshold, the computed \<open>sf\<close> is exactly 0,
  and so is the \<open>fare_std\<close> of the group's row, whatever the rounding. When the fare is
  NaN or infinite, or its square overflows, the computed \<open>sf\<close> is NaN.
\<close>

theorem singleton_group_sf64:
  assumes "byloc PU DO = Inr g" and "length fare = length PU"
    and "j < length (unique_keys g)" and "w g ! j = 1" and "rounding rnd"
  shows "\<exists>i s c. group_rows (row_keys g) (unique_keys g ! j) = [i] \<and> i < length PU
           \<and> sf64 rnd g fare = Inr s \<and> fare_std64 rnd g fare = Inr c \<and> c ! i = s ! j
           \<and> (\<forall>x. fare ! i = Fin x \<and> rnd x = x \<and> x * x < overflow_at \<longrightarrow> s ! j = Fin 0)
           \<and> (fare ! i = NaN \<or> fare ! i = PInf \<or> fare ! i = NInf
                \<or> (\<exists>x. fare ! i = Fin x \<and> rnd x = x \<and> overflow_at \<le> x * x)
               \<longrightarrow> s ! j = NaN)"
proof -
  let ?ks = "row_keys g" and ?uks = "unique_keys g"
  let ?s = "map (\<lambda>k. variance64 rnd (map (\<lambda>i. fare ! i) (group_rows ?ks k))) ?uks"
  have n: "length ?ks = length PU" using byloc_Inr(2)[OF assms(1)] by simp
  have l: "length fare = length ?ks" using n assms(2) by simp
  have "length (group_rows ?ks (?uks ! j)) = 1"
    using assms(3,4) by (simp add: w_def gb_size_def)
  then obtain i where i: "group_rows ?ks (?uks ! j) = [i]"
    by (cases "group_rows ?ks (?uks ! j)") auto
  then have "i \<in> set (group_rows ?ks (?uks ! j))" by simp
  then have ilt: "i < length ?ks" and key: "?ks ! i = ?uks ! j"
    by (simp_all add: group_rows_def)
  have s: "sf64 rnd g fare = Inr ?s" by (rule sf64_closed[OF l])
  have sj: "?s ! j = variance64 rnd [fare ! i]"
    using assms(3) by (simp add: i)
  have gi: "group_index ?uks (?ks ! i) = j"
    unfolding key by (rule group_index_of_nth[OF byloc_Inr(3)[OF assms(1)] assms(3)])
  have c: "fare_std64 rnd g fare = Inr (map (\<lambda>k. ?s ! group_index ?uks k) ?ks)"
    by (simp add: fare_std64_def s broadcast_def)
  have ci: "map (\<lambda>k. ?s ! group_index ?uks k) ?ks ! i = ?s ! j"
    using ilt by (simp only: nth_map gi)
  have ok: "\<forall>x. fare ! i = Fin x \<and> rnd x = x \<and> x * x < overflow_at \<longrightarrow> ?s ! j = Fin 0"
    unfolding sj by (auto simp: variance64_single_finite[OF assms(5)])
  have bad: "fare ! i = NaN \<or> fare ! i = PInf \<or> fare ! i = NInf
                \<or> (\<exists>x. fare ! i = Fin x \<and> rnd x = x \<and> overflow_at \<le> x * x)
               \<longrightarrow> ?s ! j = NaN"
    unfolding sj
    by (auto simp: variance64_single_special variance64_single_overflow[OF assms(5)])
  from i ilt n s c ci ok bad show ?thesis by (metis (no_types, lifting))
qed

theorem singleton_group_sf64_witness:
  "byloc [1, 2, 2] [5, 5, 5]
      = Inr \<lparr>row_keys = [[1, 5], [2, 5], [2, 5]], unique_keys = [[1, 5], [2, 5]]\<rparr>
   \<and> w \<lparr>row_keys = [[1, 5], [2, 5], [2, 5]], unique_keys = [[1, 5], [2, 5]]\<rparr> ! 0 = 1
   \<and> rounding (\<lambda>r. r) \<and> 7 * 7 < overflow_at
   \<and> (\<exists>s c. sf64 (\<lambda>r. r) \<lparr>row_keys = [[1, 5], [2, 5], [2, 5]], unique_keys = [[1, 5], [2, 5]]\<rparr>
                 [Fin 7, Fin 0, Fin 20] = Inr s
          \<and> fare_std64 (\<lambda>r. r) \<lparr>row_keys = [[1, 5], [2, 5], [2, 5]], unique_keys = [[1, 5], [2, 5]]\<rparr>
                 [Fin 7, Fin 0, Fin 20] = Inr c
          \<and> s ! 0 = Fin 0 \<and> c ! 0 = Fin 0)"
proof -
  let ?g = "\<lparr>row_keys = [[1, 5], [2, 5], [2, 5]], unique_keys = [[1, 5], [2::int, 5]]\<rparr>"
  let ?fare = "[Fin 7, Fin 0, Fin 20]"
  have g: "byloc [1, 2, 2] [5, 5, 5] = Inr ?g"
    by (simp add: byloc_def upt_rec)
  have l: "length ?fare = length [1, 2, 2 :: int]" by simp
  have j: "0 < length (unique_keys ?g)" by simp
  have c: "w ?g ! 0 = 1"
    by (simp add: w_def gb_size_def group_rows_def upt_rec)
  have r: "(7 :: real) * 7 < overflow_at" by (simp add: overflow_at_def)
  have rows: "group_rows (row_keys ?g) (unique_keys ?g ! 0) = [0]"
    by (simp add: group_rows_def upt_rec)
  from singleton_group_sf64[OF g l j c rounding_id]
  obtain i s c' where i: "group_rows (row_keys ?g) (unique_keys ?g ! 0) = [i]"
    and s: "sf64 (\<lambda>r. r) ?g ?fare = Inr s" and c': "fare_std64 (\<lambda>r. r) ?g ?fare = Inr c'"
    and e: "c' ! i = s ! 0"
    and z: "\<forall>x. ?fare ! i = Fin x \<and> x = x \<and> x * x < overflow_at \<longrightarrow> s ! 0 = Fin 0"
    by blast
  have i0: "i = 0" using i rows by simp
  have "s ! 0 = Fin 0" using z r by (simp add: i0)
  then show ?thesis using g c r s c' e rounding_id by (simp add: i0)
qed

text \<open>
  C7, as first stated for every singleton group, fails: in a table of one ride with the
  fare \<open>2^600\<close>, a finite float64, the square overflows to infinity on both sides of the
  subtraction and \<open>sf\<close> is NaN; a NaN fare gives NaN as well.
\<close>

theorem singleton_group_nan_counterexample:
  "byloc [1] [5] = Inr one_ride_byloc \<and> w one_ride_byloc = [1]
   \<and> sf64 (\<lambda>r. r) one_ride_byloc [Fin (2 ^ 600)] = Inr [NaN]
   \<and> fare_std64 (\<lambda>r. r) one_ride_byloc [Fin (2 ^ 600)] = Inr [NaN]
   \<and> sf64 (\<lambda>r. r) one_ride_byloc [NaN] = Inr [NaN]
   \<and> NaN \<noteq> Fin 0"
proof -
  have w1: "w one_ride_byloc = [1]"
    by (simp add: w_def gb_size_def group_rows_def one_ride_byloc_def)
  have v: "variance64 (\<lambda>r. r) [Fin (2 ^ 600)] = NaN"
    by (rule variance64_single_overflow[OF rounding_id refl two_600_overflows])
  have a: "sf64 (\<lambda>r. r) one_ride_byloc [Fin (2 ^ 600)] = Inr [NaN]"
    by (simp only: one_ride_sf64 v)
  have b: "fare_std64 (\<lambda>r. r) one_ride_byloc [Fin (2 ^ 600)] = Inr [NaN]"
    by (simp only: one_ride_fare_std64 v)
  have c: "sf64 (\<lambda>r. r) one_ride_byloc [NaN] = Inr [NaN]"
    by (simp only: one_ride_sf64 variance64_single_special)
  have d: "NaN \<noteq> Fin 0" by simp
  from one_ride_byloc_eq w1 a b c d show ?thesis by (intro conjI)
qed

text \<open>
  C8. When no row of a table has a z-score above 2, the cell that builds \<open>exdf\<close>
  raises nothing and returns a table with every column of \<open>data\<close>, in the same order
  and under the same names, each with zero rows.
\<close>

theorem empty_filter_no_error:
  assumes "DataFrame items = Inr data"
    and "getitem_col data ''fare_z'' = Inr (Float64 z)"
    and "list_all (\<lambda>x. \<not> 2 < x) z"
  shows "exdf data = Inr (map (\<lambda>(k, v). (k, gather v [])) data)
       \<and> map fst (map (\<lambda>(k, v). (k, gather v [])) data) = map fst data
       \<and> list_all (\<lambda>(k, v). size_pd v = 0) (map (\<lambda>(k, v). (k, gather v [])) data)"
proof -
  from DataFrame_Inr[OF assms(1)]
  have wf: "list_all (\<lambda>(k, v). size_pd v = nrows data) data" by simp
  have m: "exorbitant data = Inr (map (\<lambda>x. 2 < x) z)"
    by (simp add: exorbitant_def assms(2))
  have len: "length (map (\<lambda>x. 2 < x) z) = nrows data"
    by (rule exorbitant_length[OF wf m])
  have wf': "list_all (\<lambda>(k, v). size_pd v = length (map (\<lambda>x. 2 < x) z)) data"
    using wf by (simp only: len)
  have k: "kept (map (\<lambda>x. 2 < x) z) = []"
    by (rule kept_all_False) (use assms(3) in \<open>simp add: list_all_iff\<close>)
  have "exdf data = Inr (map (\<lambda>(k, v). (k, gather v [])) data)"
    using filter_cell[OF wf'] by (simp add: exdf_def m k)
  moreover have "map fst (map (\<lambda>(k, v). (k, gather v [])) data) = map fst data"
    by (induction data) auto
  moreover have "list_all (\<lambda>(k, v). size_pd v = 0) (map (\<lambda>(k, v). (k, gather v [])) data)"
    by (auto simp: list_all_iff)
  ultimately show ?thesis by blast
qed

theorem empty_filter_no_error_witness:
  "DataFrame calm_rides = Inr calm_rides
   \<and> getitem_col calm_rides ''fare_z'' = Inr (Float64 [1, 0])
   \<and> exdf calm_rides =
       Inr [(''fare_amount'', Float64 []), (''fare_z'', Float64 []), (''PUZone'', Strings [])]"
proof -
  have d: "DataFrame calm_rides = Inr calm_rides"
    by (simp add: calm_rides_def)
  have z: "getitem_col calm_rides ''fare_z'' = Inr (Float64 [1, 0])"
    by (simp add: getitem_col_def calm_rides_def)
  have n: "list_all (\<lambda>x. \<not> 2 < x) [1, 0 :: real]" by simp
  have "exdf calm_rides = Inr (map (\<lambda>(k, v). (k, gather v [])) calm_rides)"
    using empty_filter_no_error[OF d z n] by blast
  also have "map (\<lambda>(k, v). (k, gather v [])) calm_rides
      = [(''fare_amount'', Float64 []), (''fare_z'', Float64 []), (''PUZone'', Strings [])]"
    by (simp add: calm_rides_def)
  finally show ?thesis using d z by blast
qed

text \<open>
  C9. Both filter cells (the non-negative fares, and the z-scores above 2) build the new
  table by taking, in every column of \<open>data\<close>, the rows at the same row numbers
  \<open>kept m\<close>: the rows where the mask is true, in increasing order. Every column of the
  result has as many rows as the mask has true entries. The result is a new value; the
  columns of \<open>data\<close> enter it unchanged.
\<close>

theorem mask_filter_every_column:
  assumes "DataFrame items = Inr data"
    and "non_neg data = Inr m \<or> exorbitant data = Inr m"
  shows "length m = nrows data
       \<and> (non_neg data = Inr m \<longrightarrow>
            non_neg_data data = Inr (map (\<lambda>(k, v). (k, gather v (kept m))) data))
       \<and> (exorbitant data = Inr m \<longrightarrow>
            exdf data = Inr (map (\<lambda>(k, v). (k, gather v (kept m))) data))
       \<and> list_all (\<lambda>(k, v). size_pd v = length (filter id m))
            (map (\<lambda>(k, v). (k, gather v (kept m))) data)
       \<and> sorted_wrt (<) (kept m)
       \<and> set (kept m) = {i. i < length m \<and> m ! i}"
proof -
  from DataFrame_Inr[OF assms(1)]
  have wf: "list_all (\<lambda>(k, v). size_pd v = nrows data) data" by simp
  have len: "length m = nrows data"
    using assms(2) non_neg_length[OF wf] exorbitant_length[OF wf] by blast
  have wf': "list_all (\<lambda>(k, v). size_pd v = length m) data"
    using wf by (simp add: len)
  have sizes: "list_all (\<lambda>(k, v). size_pd v = length (filter id m))
            (map (\<lambda>(k, v). (k, gather v (kept m))) data)"
    by (auto simp: list_all_iff length_kept)
  have "set (kept m) = {i. i < length m \<and> m ! i}"
    by (auto simp: kept_def)
  with len sizes sorted_kept[of m] filter_cell[OF wf'] show ?thesis
    by (simp add: non_neg_data_def exdf_def)
qed

theorem mask_filter_every_column_witness:
  "DataFrame three_rides = Inr three_rides
   \<and> non_neg three_rides = Inr [True, False, True]
   \<and> non_neg_data three_rides =
       Inr [(''PULocationID'', Int64 [1, 1]), (''fare_amount'', Float64 [10, 4]),
            (''fare_z'', Float64 [3, 1]), (''PUZone'', Strings [''a'', ''c''])]
   \<and> exorbitant three_rides = Inr [True, False, False]
   \<and> exdf three_rides =
       Inr [(''PULocationID'', Int64 [1]), (''fare_amount'', Float64 [10]),
            (''fare_z'', Float64 [3]), (''PUZone'', Strings [''a''])]"
proof -
  have a: "non_neg_data three_rides
      = Inr (map (\<lambda>(k, v). (k, gather v (kept [True, False, True]))) three_rides)"
    using mask_filter_every_column[OF three_rides_DataFrame disjI1[OF three_rides_non_neg]]
      three_rides_non_neg by blast
  have b: "exdf three_rides
      = Inr (map (\<lambda>(k, v). (k, gather v (kept [True, False, False]))) three_rides)"
    using mask_filter_every_column[OF three_rides_DataFrame disjI2[OF three_rides_exorbitant]]
      three_rides_exorbitant by blast
  have a': "map (\<lambda>(k, v). (k, gather v (kept [True, False, True]))) three_rides
      = [(''PULocationID'', Int64 [1, 1]), (''fare_amount'', Float64 [10, 4]),
         (''fare_z'', Float64 [3, 1]), (''PUZone'', Strings [''a'', ''c''])]"
    by (simp add: kept_examples three_rides_def)
  have b': "map (\<lambda>(k, v). (k, gather v (kept [True, False, False]))) three_rides
      = [(''PULocationID'', Int64 [1]), (''fare_amount'', Float64 [10]),
         (''fare_z'', Float64 [3]), (''PUZone'', Strings [''a''])]"
    by (simp add: kept_examples three_rides_def)
  from a b three_rides_DataFrame three_rides_non_neg three_rides_exorbitant
  show ?thesis unfolding a' b' by blast
qed

text \<open>
  C10. \<open>cvt_to_string\<close> always returns a string and never raises: \<open>'N/A'\<close> when
  the input equals the empty string, when the comparison raises, or when \<open>str\<close> raises,
  and \<open>str\<close> of the input otherwise.
\<close>

theorem cvt_to_string_total:
  "(\<exists>s. cvt_to_string v = Inr s)
   \<and> (py_eq_empty v = Inr True \<longrightarrow> cvt_to_string v = Inr ''N/A'')
   \<and> (\<forall>e. py_eq_empty v = Inl e \<longrightarrow> cvt_to_string v = Inr ''N/A'')
   \<and> (\<forall>e. py_eq_empty v = Inr False \<and> py_str v = Inl e \<longrightarrow> cvt_to_string v = Inr ''N/A'')
   \<and> (\<forall>s. py_eq_empty v = Inr False \<and> py_str v = Inr s \<longrightarrow> cvt_to_string v = Inr s)"
  by (auto simp: cvt_to_string_def cvt_try_def split: sum.splits)

theorem cvt_to_string_total_witness:
  "cvt_to_string (PyStr ''Queens'') = Inr ''Queens''
   \<and> cvt_to_string (PyStr []) = Inr ''N/A''
   \<and> cvt_to_string (PyObj (Inl (Exn ''TypeError'')) (Inr ''x'')) = Inr ''N/A''
   \<and> cvt_to_string (PyObj (Inr False) (Inl (Exn ''ValueError''))) = Inr ''N/A''"
proof (intro conjI)
  show "cvt_to_string (PyStr ''Queens'') = Inr ''Queens''"
    by (rule cvt_to_string_total[THEN conjunct2, THEN conjunct2, THEN conjunct2,
          THEN conjunct2, rule_format]) simp
  show "cvt_to_string (PyStr []) = Inr ''N/A''"
    by (rule cvt_to_string_total[THEN conjunct2, THEN conjunct1, rule_format]) simp
  show "cvt_to_string (PyObj (Inl (Exn ''TypeError'')) (Inr ''x'')) = Inr ''N/A''"
    by (rule cvt_to_string_total[THEN conjunct2, THEN conjunct2, THEN conjunct1,
          rule_format]) simp
  show "cvt_to_string (PyObj (Inr False) (Inl (Exn ''ValueError''))) = Inr ''N/A''"
    by (rule cvt_to_string_total[THEN conjunct2, THEN conjunct2, THEN conjunct2,
          THEN conjunct1, rule_format]) simp
qed

end
